theory Spec2Isabelle
  imports Complex_Main
begin

section \<open>Floating-point values with their special values\<close>

text \<open>
  The arrays and scalars of \<^verbatim>\<open>abbottfirestone.py\<close> are numpy \<^verbatim>\<open>float64\<close> values.
  The search for the equivalence line starts from \<^verbatim>\<open>-np.inf\<close>, and numpy divides by
  zero without raising, so the special values are part of the behaviour of the code.
  A value is a real number or one of the three special values. Finite arithmetic is
  exact (rounding and overflow are left out, and zero carries no sign: a zero divisor
  counts as \<open>+0\<close>); the special values follow IEEE 754.
\<close>

datatype fl = Fin real | PInf | NInf | NaN

fun fl_neg :: "fl \<Rightarrow> fl" where
  "fl_neg (Fin a) = Fin (- a)"
| "fl_neg PInf = NInf"
| "fl_neg NInf = PInf"
| "fl_neg NaN = NaN"

fun fl_add :: "fl \<Rightarrow> fl \<Rightarrow> fl" where
  "fl_add (Fin a) (Fin b) = Fin (a + b)"
| "fl_add (Fin a) PInf = PInf"
| "fl_add (Fin a) NInf = NInf"
| "fl_add PInf (Fin b) = PInf"
| "fl_add PInf PInf = PInf"
| "fl_add PInf NInf = NaN"
| "fl_add NInf (Fin b) = NInf"
| "fl_add NInf NInf = NInf"
| "fl_add NInf PInf = NaN"
| "fl_add NaN y = NaN"
| "fl_add x NaN = NaN"

definition fl_sub :: "fl \<Rightarrow> fl \<Rightarrow> fl" where
  "fl_sub x y = fl_add x (fl_neg y)"

text \<open>The infinity with the sign of \<open>a\<close>, and not a number when \<open>a\<close> is zero.\<close>

definition signed_inf :: "real \<Rightarrow> fl" where
  "signed_inf a = (if a = 0 then NaN else if 0 < a then PInf else NInf)"

fun fl_mul :: "fl \<Rightarrow> fl \<Rightarrow> fl" where
  "fl_mul (Fin a) (Fin b) = Fin (a * b)"
| "fl_mul (Fin a) PInf = signed_inf a"
| "fl_mul (Fin a) NInf = signed_inf (- a)"
| "fl_mul PInf (Fin b) = signed_inf b"
| "fl_mul NInf (Fin b) = signed_inf (- b)"
| "fl_mul PInf PInf = PInf"
| "fl_mul PInf NInf = NInf"
| "fl_mul NInf PInf = NInf"
| "fl_mul NInf NInf = PInf"
| "fl_mul NaN y = NaN"
| "fl_mul x NaN = NaN"

fun fl_div :: "fl \<Rightarrow> fl \<Rightarrow> fl" where
  "fl_div (Fin a) (Fin b) = (if b = 0 then signed_inf a else Fin (a / b))"
| "fl_div (Fin a) PInf = Fin 0"
| "fl_div (Fin a) NInf = Fin 0"
| "fl_div PInf (Fin b) = (if 0 \<le> b then PInf else NInf)"
| "fl_div NInf (Fin b) = (if 0 \<le> b then NInf else PInf)"
| "fl_div PInf PInf = NaN"
| "fl_div PInf NInf = NaN"
| "fl_div NInf PInf = NaN"
| "fl_div NInf NInf = NaN"
| "fl_div NaN y = NaN"
| "fl_div x NaN = NaN"

fun fl_abs :: "fl \<Rightarrow> fl" where
  "fl_abs (Fin a) = Fin \<bar>a\<bar>"
| "fl_abs PInf = PInf"
| "fl_abs NInf = PInf"
| "fl_abs NaN = NaN"

text \<open>Comparisons: every comparison with not a number is false.\<close>

fun fl_lt :: "fl \<Rightarrow> fl \<Rightarrow> bool" where
  "fl_lt (Fin a) (Fin b) = (a < b)"
| "fl_lt (Fin a) PInf = True"
| "fl_lt NInf (Fin b) = True"
| "fl_lt NInf PInf = True"
| "fl_lt x y = False"

fun fl_le :: "fl \<Rightarrow> fl \<Rightarrow> bool" where
  "fl_le (Fin a) (Fin b) = (a \<le> b)"
| "fl_le (Fin a) PInf = True"
| "fl_le NInf (Fin b) = True"
| "fl_le NInf PInf = True"
| "fl_le NInf NInf = True"
| "fl_le PInf PInf = True"
| "fl_le x y = False"

definition fl_gt :: "fl \<Rightarrow> fl \<Rightarrow> bool" where
  "fl_gt x y = fl_lt y x"


fun is_fin :: "fl \<Rightarrow> bool" where
  "is_fin (Fin a) = True"
| "is_fin x = False"

fun the_fin :: "fl \<Rightarrow> real" where
  "the_fin (Fin a) = a"
| "the_fin x = 0"

datatype py_error = ValueError | IndexError

section \<open>The histogram of numpy\<close>

text \<open>
  \<^verbatim>\<open>np.histogram(a, bins=n)\<close> for an integer \<open>n\<close>: it raises \<^verbatim>\<open>ValueError\<close> unless
  \<open>n\<close> is positive; the range is the minimum and maximum of the data, \<open>(0, 1)\<close> for
  no data, and a range of width zero is widened by one half on each side; the
  \<open>n + 1\<close> edges are equally spaced; every bin is closed on the left and open on the
  right, but the last, which is closed on both sides. The data are the flattened
  height map, every value a finite number.
\<close>

definition outer_edges :: "real list \<Rightarrow> real \<times> real" where
  "outer_edges a =
     (if a = [] then (0, 1)
      else let first_edge = Min (set a); last_edge = Max (set a)
           in if first_edge = last_edge then (first_edge - 1 / 2, last_edge + 1 / 2)
              else (first_edge, last_edge))"

definition linspace :: "real \<Rightarrow> real \<Rightarrow> nat \<Rightarrow> real list" where
  "linspace start stop n = map (\<lambda>i. start + real i * ((stop - start) / real n)) [0..<Suc n]"

definition in_bin :: "real list \<Rightarrow> nat \<Rightarrow> nat \<Rightarrow> real \<Rightarrow> bool" where
  "in_bin edges n i v =
     (edges ! i \<le> v \<and> (v < edges ! Suc i \<or> (Suc i = n \<and> v = edges ! n)))"

definition histogram :: "real list \<Rightarrow> nat \<Rightarrow> py_error + (nat list \<times> real list)" where
  "histogram a bins =
     (if bins = 0 then Inl ValueError
      else let edges = linspace (fst (outer_edges a)) (snd (outer_edges a)) bins;
               hist = map (\<lambda>i. length (filter (in_bin edges bins i) a)) [0..<bins]
           in Inr (hist, edges))"

fun cumsum_from :: "nat \<Rightarrow> nat list \<Rightarrow> nat list" where
  "cumsum_from acc [] = []"
| "cumsum_from acc (x # xs) = (acc + x) # cumsum_from (acc + x) xs"

definition cumsum :: "nat list \<Rightarrow> nat list" where
  "cumsum xs = cumsum_from 0 xs"

section \<open>The numeric helpers\<close>

text \<open>
  Modelled from the spec: \<^verbatim>\<open>interp1d\<close> of \<^verbatim>\<open>surfalize/mathutils.py\<close>, which is not
  among the sources. The spec asks for an interpolant of the relation given by two
  sequences, and names clamping to the boundary value as the policy outside the
  sampled domain. The points are ordered by abscissa (the heights are handed over in
  descending order), the order being stable; between two neighbours the value is linear,
  and at a sampled abscissa it is the sampled ordinate, the last one where several points
  share the abscissa (the segment of a query \<open>x\<close> is the one with
  \<open>xp[j] \<le> x < xp[j+1]\<close>, as in \<^verbatim>\<open>np.interp\<close>); outside the sampled domain it is the
  boundary value; a query that is not a number yields not a number.
\<close>

fun sort_rank :: "fl \<Rightarrow> nat" where
  "sort_rank NInf = 0"
| "sort_rank (Fin a) = 1"
| "sort_rank PInf = 2"
| "sort_rank NaN = 3"

definition sort_le :: "fl \<Rightarrow> fl \<Rightarrow> bool" where
  "sort_le x y = (sort_rank x < sort_rank y \<or> (sort_rank x = sort_rank y \<and> the_fin x \<le> the_fin y))"

fun insort_pt :: "fl \<times> fl \<Rightarrow> (fl \<times> fl) list \<Rightarrow> (fl \<times> fl) list" where
  "insort_pt p [] = [p]"
| "insort_pt p (q # qs) = (if sort_le (fst p) (fst q) then p # q # qs else q # insort_pt p qs)"

definition sort_pts :: "(fl \<times> fl) list \<Rightarrow> (fl \<times> fl) list" where
  "sort_pts ps = foldr insort_pt ps []"

fun interp_sorted :: "(fl \<times> fl) list \<Rightarrow> fl \<Rightarrow> fl" where
  "interp_sorted [] x = NaN"
| "interp_sorted [p] x = snd p"
| "interp_sorted (p # q # ps) x =
     (if fl_lt x (fst p) then snd p
      else if fl_lt x (fst q)
        then if x = fst p then snd p
             else fl_add (snd p)
                    (fl_mul (fl_sub (snd q) (snd p))
                       (fl_div (fl_sub x (fst p)) (fl_sub (fst q) (fst p))))
      else interp_sorted (q # ps) x)"

definition interp1d :: "fl list \<Rightarrow> fl list \<Rightarrow> fl \<Rightarrow> fl" where
  "interp1d xdata ydata x =
     (if x = NaN then NaN else interp_sorted (sort_pts (zip xdata ydata)) x)"

text \<open>
  Modelled from the spec: \<^verbatim>\<open>argclosest\<close> of \<^verbatim>\<open>surfalize/mathutils.py\<close>, which is not
  among the sources. The nearest index is the argmin of the absolute difference between
  the target and each element, by a linear scan in which the first occurrence wins.
  An empty array has no argmin: numpy raises \<^verbatim>\<open>ValueError\<close>.
\<close>

fun argmin_scan :: "fl list \<Rightarrow> nat \<Rightarrow> fl \<Rightarrow> nat \<Rightarrow> nat" where
  "argmin_scan [] i best ibest = ibest"
| "argmin_scan (d # ds) i best ibest =
     (if fl_lt d best then argmin_scan ds (Suc i) d i else argmin_scan ds (Suc i) best ibest)"

definition argclosest :: "fl \<Rightarrow> fl list \<Rightarrow> py_error + nat" where
  "argclosest target array =
     (case map (\<lambda>a. fl_abs (fl_sub a target)) array of
        [] \<Rightarrow> Inl ValueError
      | d # ds \<Rightarrow> Inr (argmin_scan ds 1 d 0))"

text \<open>
  Modelled from the spec: \<^verbatim>\<open>trapezoid\<close> of \<^verbatim>\<open>surfalize/mathutils.py\<close>, which is not
  among the sources. The composite trapezoid rule over the pairs in their given order,
  the first sequence being the integration variable (the spec: the material-ratio axis
  is the integration variable of \<^verbatim>\<open>trapezoidal_integral(material_ratio, height)\<close>).
  Fewer than two points enclose no area.
\<close>

fun trapezoid :: "fl list \<Rightarrow> fl list \<Rightarrow> fl" where
  "trapezoid (x0 # x1 # xs) (y0 # y1 # ys) =
     fl_add (fl_div (fl_mul (fl_sub x1 x0) (fl_add y0 y1)) (Fin 2))
            (trapezoid (x1 # xs) (y1 # ys))"
| "trapezoid xs ys = Fin 0"

section \<open>The Abbott-Firestone curve\<close>

definition EQUIVALENCE_LINE_WIDTH :: real where
  "EQUIVALENCE_LINE_WIDTH = 40"

text \<open>
  \<^verbatim>\<open>_get_material_ratio_curve\<close>: the histogram, both arrays reversed, and the
  cumulative sum of the counts over their total times 100, with 100 put in front.
  The division is numpy's division of integer arrays: no data gives \<open>0 / 0\<close>.
\<close>

definition get_material_ratio_curve :: "real list \<Rightarrow> nat \<Rightarrow> py_error + (fl list \<times> fl list)" where
  "get_material_ratio_curve data nbins =
     (case histogram data nbins of
        Inl e \<Rightarrow> Inl e
      | Inr (hist0, height0) \<Rightarrow>
          let hist = rev hist0;
              height = rev height0;
              material_ratio =
                Fin 100 # map (\<lambda>c. fl_mul (fl_div (Fin (real c)) (Fin (real (sum_list hist)))) (Fin 100))
                              (cumsum hist)
          in Inr (map Fin height, material_ratio))"

text \<open>
  The loop of \<^verbatim>\<open>_calculate_equivalence_line\<close> over the indices still to visit, with
  the loop's two variables. \<^verbatim>\<open>break\<close> returns them, \<^verbatim>\<open>continue\<close> goes on unchanged.
  The indices range over \<^verbatim>\<open>material_ratio\<close>; reading \<^verbatim>\<open>height\<close> beyond its end raises.
\<close>

fun equivalence_loop ::
  "(fl \<Rightarrow> fl) \<Rightarrow> fl list \<Rightarrow> fl list \<Rightarrow> nat list \<Rightarrow> fl \<Rightarrow> nat \<Rightarrow> py_error + (fl \<times> nat)" where
  "equivalence_loop smc_fit material_ratio height [] max_slope istart_final =
     Inr (max_slope, istart_final)"
| "equivalence_loop smc_fit material_ratio height (istart # rest) max_slope istart_final =
     (if fl_gt (material_ratio ! istart) (Fin (100 - EQUIVALENCE_LINE_WIDTH))
      then Inr (max_slope, istart_final)
      else let mr_shifted = fl_add (material_ratio ! istart) (Fin EQUIVALENCE_LINE_WIDTH)
           in if fl_gt mr_shifted (Fin 100)
              then equivalence_loop smc_fit material_ratio height rest max_slope istart_final
              else if length height \<le> istart then Inl IndexError
              else let slope = fl_div (fl_sub (smc_fit mr_shifted) (height ! istart))
                                      (Fin EQUIVALENCE_LINE_WIDTH)
                   in if fl_gt slope max_slope
                      then equivalence_loop smc_fit material_ratio height rest slope istart
                      else equivalence_loop smc_fit material_ratio height rest max_slope istart_final)"

definition calculate_equivalence_line ::
  "fl list \<Rightarrow> fl list \<Rightarrow> py_error + (fl \<times> fl \<times> fl \<times> fl)" where
  "calculate_equivalence_line height material_ratio =
     (case equivalence_loop (interp1d material_ratio height) material_ratio height
             [0..<length material_ratio] NInf 0 of
        Inl e \<Rightarrow> Inl e
      | Inr (max_slope, istart_final) \<Rightarrow>
          if length height \<le> istart_final \<or> length material_ratio \<le> istart_final
          then Inl IndexError
          else let intercept = fl_sub (height ! istart_final)
                                      (fl_mul max_slope (material_ratio ! istart_final));
                   y_upper = intercept;
                   y_lower = fl_add (fl_mul max_slope (Fin 100)) intercept
               in Inr (max_slope, intercept, y_upper, y_lower))"

text \<open>
  The candidates of the search, as the spec describes them: the indices are examined in
  increasing order, the examination stops at the first index whose material ratio
  exceeds \<open>100 - 40\<close>, and an index whose shifted ratio exceeds 100 is skipped. The slope
  of a candidate is that of the secant over the fixed width, for a given interpolant
  \<open>height_at_ratio\<close>.
\<close>

fun valid_candidates :: "fl list \<Rightarrow> nat list \<Rightarrow> nat list" where
  "valid_candidates material_ratio [] = []"
| "valid_candidates material_ratio (i # rest) =
     (if fl_gt (material_ratio ! i) (Fin (100 - EQUIVALENCE_LINE_WIDTH)) then []
      else if fl_gt (fl_add (material_ratio ! i) (Fin EQUIVALENCE_LINE_WIDTH)) (Fin 100)
        then valid_candidates material_ratio rest
      else i # valid_candidates material_ratio rest)"

definition candidates :: "fl list \<Rightarrow> nat list" where
  "candidates material_ratio = valid_candidates material_ratio [0..<length material_ratio]"

definition candidate_slope :: "(fl \<Rightarrow> fl) \<Rightarrow> fl list \<Rightarrow> fl list \<Rightarrow> nat \<Rightarrow> fl" where
  "candidate_slope height_at_ratio height material_ratio i =
     fl_div (fl_sub (height_at_ratio (fl_add (material_ratio ! i) (Fin EQUIVALENCE_LINE_WIDTH)))
                    (height ! i))
            (Fin EQUIVALENCE_LINE_WIDTH)"



text \<open>The object: the fields that \<^verbatim>\<open>__init__\<close> sets and the methods read.\<close>

record AbbottFirestoneCurve =
  nbins :: nat
  height :: "fl list"
  material_ratio :: "fl list"
  slope :: fl
  intercept :: fl
  y_upper :: fl
  y_lower :: fl

definition init :: "real list \<Rightarrow> nat \<Rightarrow> py_error + AbbottFirestoneCurve" where
  "init data n =
     (case get_material_ratio_curve data n of
        Inl e \<Rightarrow> Inl e
      | Inr (h, mr) \<Rightarrow>
          (case calculate_equivalence_line h mr of
             Inl e \<Rightarrow> Inl e
           | Inr (s, i, yu, yl) \<Rightarrow>
               Inr \<lparr>nbins = n, height = h, material_ratio = mr, slope = s, intercept = i,
                    y_upper = yu, y_lower = yl\<rparr>))"

definition Sk :: "AbbottFirestoneCurve \<Rightarrow> fl" where
  "Sk self = fl_sub (y_upper self) (y_lower self)"

definition Smr :: "AbbottFirestoneCurve \<Rightarrow> fl \<Rightarrow> fl" where
  "Smr self c = interp1d (height self) (material_ratio self) c"

definition Smc :: "AbbottFirestoneCurve \<Rightarrow> fl \<Rightarrow> fl" where
  "Smc self mr = interp1d (material_ratio self) (height self) mr"

definition Smr1 :: "AbbottFirestoneCurve \<Rightarrow> fl" where
  "Smr1 self = Smr self (y_upper self)"


definition Spk :: "AbbottFirestoneCurve \<Rightarrow> py_error + fl" where
  "Spk self =
     (case argclosest (y_upper self) (height self) of
        Inl e \<Rightarrow> Inl e
      | Inr idx \<Rightarrow>
          let area = trapezoid (take idx (material_ratio self)) (take idx (height self))
          in Inr (fl_div (fl_mul (Fin 2) (fl_abs area)) (Smr1 self)))"


text \<open>
  The object that the constructor builds for the two heights 0 and 1 in two bins.
\<close>

definition two_heights :: AbbottFirestoneCurve where
  "two_heights =
     \<lparr>nbins = 2, height = [Fin 1, Fin (1 / 2), Fin 0],
      material_ratio = [Fin 100, Fin 50, Fin 100], slope = NInf, intercept = PInf,
      y_upper = PInf, y_lower = NaN\<rparr>"


section \<open>Facts about the construction of the curve\<close>

lemma length_linspace: "length (linspace a b n) = Suc n"
  by (simp add: linspace_def)

lemma length_cumsum_from: "length (cumsum_from acc xs) = length xs"
  by (induction xs arbitrary: acc) simp_all

lemma histogram_lengths:
  assumes "histogram a n = Inr (hist, edges)"
  shows "length hist = n \<and> length edges = Suc n"
  using assms by (auto simp: histogram_def Let_def length_linspace split: if_splits)

lemma histogram_ok: "0 < n \<Longrightarrow> \<exists>hist edges. histogram a n = Inr (hist, edges)"
  by (simp add: histogram_def Let_def)

lemma curve_shape:
  assumes "get_material_ratio_curve data n = Inr (h, mr)"
  shows "\<exists>hist edges. histogram data n = Inr (hist, edges) \<and> h = map Fin (rev edges) \<and>
           mr = Fin 100 # map (\<lambda>c. fl_mul (fl_div (Fin (real c)) (Fin (real (sum_list (rev hist))))) (Fin 100))
                              (cumsum (rev hist))"
  using assms by (auto simp: get_material_ratio_curve_def Let_def split: sum.splits)

lemma curve_ok: "0 < n \<Longrightarrow> \<exists>h mr. get_material_ratio_curve data n = Inr (h, mr)"
  by (simp add: get_material_ratio_curve_def histogram_def Let_def)

lemma outer_edges_less: "fst (outer_edges a) < snd (outer_edges a)"
proof (cases "a = []")
  case True
  then show ?thesis by (simp add: outer_edges_def)
next
  case False
  then have "Min (set a) \<le> Max (set a)" by simp
  then have "Min (set a) \<noteq> Max (set a) \<Longrightarrow> Min (set a) < Max (set a)" by linarith
  then show ?thesis using False by (auto simp: outer_edges_def Let_def)
qed

lemma outer_edges_bounds:
  assumes "v \<in> set a"
  shows "fst (outer_edges a) \<le> v \<and> v \<le> snd (outer_edges a)"
proof -
  from assms have ne: "a \<noteq> []" by auto
  have "Min (set a) \<le> v" "v \<le> Max (set a)" using assms by simp_all
  then show ?thesis using ne by (auto simp: outer_edges_def Let_def)
qed

lemma linspace_nth: "i \<le> n \<Longrightarrow> linspace a b n ! i = a + real i * ((b - a) / real n)"
  unfolding linspace_def by (simp add: nth_map_upt del: upt_Suc)

lemma linspace_first: "linspace a b n ! 0 = a"
  by (simp add: linspace_nth)

lemma linspace_last: "0 < n \<Longrightarrow> linspace a b n ! n = b"
  by (simp add: linspace_nth)

lemma linspace_strict:
  assumes "a < b" "0 < n"
  shows "sorted_wrt (<) (linspace a b n)"
proof -
  have w: "0 < (b - a) / real n" using assms by simp
  have "sorted_wrt (\<lambda>i j. a + real i * ((b - a) / real n) < a + real j * ((b - a) / real n)) [0..<Suc n]"
  proof (rule sorted_wrt_mono_rel[of _ "(<)"])
    show "sorted_wrt (<) [0..<Suc n]" by (rule sorted_wrt_upt)
  next
    fix i j :: nat assume "i \<in> set [0..<Suc n]" "j \<in> set [0..<Suc n]" "i < j"
    then have "real i < real j" by simp
    then have "real i * ((b - a) / real n) < real j * ((b - a) / real n)"
      using w by (rule mult_strict_right_mono)
    then show "a + real i * ((b - a) / real n) < a + real j * ((b - a) / real n)"
      by linarith
  qed
  then show ?thesis unfolding linspace_def by (simp add: sorted_wrt_map del: upt_Suc)
qed

lemma strict_sorted_hd_last:
  fixes xs :: "real list"
  assumes "sorted_wrt (<) xs" "xs \<noteq> []"
  shows "hd xs = Min (set xs) \<and> last xs = Max (set xs)"
proof -
  have s: "sorted xs" using assms(1) by (simp add: strict_sorted_iff)
  have "hd xs = Min (set xs)"
  proof (rule Min_eqI[symmetric])
    show "finite (set xs)" by simp
    show "hd xs \<in> set xs" using assms(2) by simp
    fix y assume "y \<in> set xs"
    then show "hd xs \<le> y" using s assms(2) by (cases xs) auto
  qed
  moreover have "last xs = Max (set xs)"
  proof (rule Max_eqI[symmetric])
    show "finite (set xs)" by simp
    show "last xs \<in> set xs" using assms(2) by simp
    fix y assume "y \<in> set xs"
    then obtain i where "i < length xs" "xs ! i = y" by (auto simp: in_set_conv_nth)
    then show "y \<le> last xs" using s assms(2)
      by (metis One_nat_def Suc_pred last_conv_nth length_greater_0_conv less_Suc_eq_le sorted_nth_mono diff_less zero_less_one)
  qed
  ultimately show ?thesis by simp
qed

lemma curve_lengths:
  assumes "get_material_ratio_curve data n = Inr (h, mr)"
  shows "length h = Suc n \<and> length mr = Suc n"
proof -
  from curve_shape[OF assms] obtain hist edges where
    H: "histogram data n = Inr (hist, edges)" "h = map Fin (rev edges)"
    "mr = Fin 100 # map (\<lambda>c. fl_mul (fl_div (Fin (real c)) (Fin (real (sum_list (rev hist))))) (Fin 100))
                              (cumsum (rev hist))" by blast
  from histogram_lengths[OF H(1)] show ?thesis
    using H(2,3) by (simp add: cumsum_def length_cumsum_from)
qed

lemma curve_first_ratio:
  assumes "get_material_ratio_curve data n = Inr (h, mr)"
  shows "mr ! 0 = Fin 100"
  using curve_shape[OF assms] by auto

lemma curve_heights_finite:
  assumes "get_material_ratio_curve data n = Inr (h, mr)" "i \<le> n"
  shows "is_fin (h ! i)"
proof -
  from curve_shape[OF assms(1)] obtain hist edges where
    H: "histogram data n = Inr (hist, edges)" "h = map Fin (rev edges)" by blast
  from histogram_lengths[OF H(1)] have "i < length (rev edges)" using assms(2) by simp
  then show ?thesis using H(2) by simp
qed

lemma bin_exists:
  fixes f :: "nat \<Rightarrow> real"
  assumes "f 0 \<le> v" "v \<le> f n" "0 < n"
  shows "\<exists>i<n. f i \<le> v \<and> (v < f (Suc i) \<or> (Suc i = n \<and> v = f n))"
  using assms
proof (induction n)
  case 0
  then show ?case by simp
next
  case (Suc m)
  show ?case
  proof (cases "f m \<le> v")
    case True
    with Suc.prems(2) have "f m \<le> v \<and> (v < f (Suc m) \<or> (Suc m = Suc m \<and> v = f (Suc m)))"
      by auto
    then show ?thesis by blast
  next
    case False
    then have lt: "v < f m" by simp
    with Suc.prems(1) have m: "0 < m" by (cases m) auto
    from Suc.IH[OF Suc.prems(1) _ m] lt obtain i where
      "i < m" "f i \<le> v" "v < f (Suc i) \<or> (Suc i = m \<and> v = f m)" by auto
    with lt have "i < Suc m \<and> f i \<le> v \<and> v < f (Suc i)" by auto
    then show ?thesis by blast
  qed
qed

lemma histogram_counts_some:
  assumes "histogram a n = Inr (hist, edges)" "v \<in> set a"
  shows "0 < sum_list hist"
proof -
  from assms(1) have n: "0 < n" by (auto simp: histogram_def split: if_splits)
  let ?lo = "fst (outer_edges a)" and ?hi = "snd (outer_edges a)"
  have e: "edges = linspace ?lo ?hi n"
    and h: "hist = map (\<lambda>i. length (filter (in_bin edges n i) a)) [0..<n]"
    using assms(1) n by (auto simp: histogram_def Let_def)
  have "edges ! 0 \<le> v" "v \<le> edges ! n"
    using outer_edges_bounds[OF assms(2)] n by (simp_all add: e linspace_first linspace_last)
  from bin_exists[of "\<lambda>i. edges ! i", OF this n] obtain i where
    i: "i < n" "in_bin edges n i v" by (auto simp: in_bin_def)
  then have "v \<in> set (filter (in_bin edges n i) a)" using assms(2) by simp
  then have "0 < length (filter (in_bin edges n i) a)" by (rule length_pos_if_in_set)
  then have "0 < hist ! i" using i(1) by (simp add: h)
  moreover have "hist ! i \<in> set hist" using i(1) by (simp add: h)
  then have "hist ! i \<le> sum_list hist" by (intro member_le_sum_list) auto
  ultimately show ?thesis by simp
qed

lemma last_cumsum_from: "xs \<noteq> [] \<Longrightarrow> last (cumsum_from acc xs) = acc + sum_list xs"
proof (induction xs arbitrary: acc)
  case Nil
  then show ?case by simp
next
  case (Cons x xs)
  show ?case
  proof (cases xs)
    case Nil
    then show ?thesis by simp
  next
    case (Cons y ys)
    then have "last (cumsum_from (acc + x) xs) = acc + x + sum_list xs"
      using Cons.IH[of "acc + x"] by simp
    then show ?thesis using Cons by (simp add: add.assoc)
  qed
qed

lemma cumsum_from_nil: "(cumsum_from acc xs = []) = (xs = [])"
  by (cases xs) simp_all

lemma sorted_cumsum_from: "sorted (cumsum_from acc xs) \<and> (\<forall>c \<in> set (cumsum_from acc xs). acc \<le> c)"
proof (induction xs arbitrary: acc)
  case Nil
  then show ?case by simp
next
  case (Cons x xs)
  have "sorted (cumsum_from (acc + x) xs)" "\<forall>c \<in> set (cumsum_from (acc + x) xs). acc + x \<le> c"
    using Cons.IH[of "acc + x"] by simp_all
  then show ?case by auto
qed

lemma curve_ratio_nth:
  assumes "get_material_ratio_curve data n = Inr (h, mr)" "data \<noteq> []" "i < n"
  shows "\<exists>hist edges. histogram data n = Inr (hist, edges) \<and> 0 < sum_list hist \<and>
           mr ! Suc i = Fin (real (cumsum (rev hist) ! i) / real (sum_list hist) * 100)"
proof -
  from curve_shape[OF assms(1)] obtain hist edges where
    H: "histogram data n = Inr (hist, edges)"
    "mr = Fin 100 # map (\<lambda>c. fl_mul (fl_div (Fin (real c)) (Fin (real (sum_list (rev hist))))) (Fin 100))
                              (cumsum (rev hist))" by blast
  from assms(2) obtain v where "v \<in> set data" by (cases data) auto
  from histogram_counts_some[OF H(1) this] have pos: "0 < sum_list hist" .
  define S where "S = sum_list hist"
  have S: "S \<noteq> 0" unfolding S_def using pos by linarith
  have len: "length (cumsum (rev hist)) = n"
    using histogram_lengths[OF H(1)] by (simp add: cumsum_def length_cumsum_from)
  have "mr = Fin 100 # map (\<lambda>c. fl_mul (fl_div (Fin (real c)) (Fin (real S))) (Fin 100))
                              (cumsum (rev hist))"
    using H(2) by (simp add: S_def sum_list_rev)
  then have "mr ! Suc i = Fin (real (cumsum (rev hist) ! i) / real S * 100)"
    using S len assms(3) by simp
  then show ?thesis using H(1) pos unfolding S_def by blast
qed

lemma curve_last_ratio:
  assumes "get_material_ratio_curve data n = Inr (h, mr)" "data \<noteq> []"
  shows "mr ! n = Fin 100"
proof -
  from assms(1) have n: "0 < n"
    by (auto simp: get_material_ratio_curve_def histogram_def split: if_splits)
  then obtain m where m: "n = Suc m" by (cases n) auto
  from curve_ratio_nth[OF assms, of m] m obtain hist edges where
    H: "histogram data n = Inr (hist, edges)" "0 < sum_list hist"
       "mr ! n = Fin (real (cumsum (rev hist) ! m) / real (sum_list hist) * 100)" by auto
  have len: "length hist = n" using histogram_lengths[OF H(1)] by simp
  then have ne: "rev hist \<noteq> []" using n by auto
  have "length (cumsum_from 0 (rev hist)) = Suc m"
    using len m by (simp add: length_cumsum_from)
  then have "cumsum (rev hist) ! m = last (cumsum_from 0 (rev hist))"
    unfolding cumsum_def by (metis diff_Suc_1 last_conv_nth length_0_conv nat.distinct(1))
  also have "\<dots> = sum_list hist" using last_cumsum_from[OF ne, of 0] by (simp add: sum_list_rev)
  finally have c: "cumsum (rev hist) ! m = sum_list hist" .
  define S where "S = sum_list hist"
  have "S \<noteq> 0" unfolding S_def using H(2) by linarith
  then have "real S / real S = 1" by simp
  then show ?thesis using H(3) unfolding c S_def[symmetric] by simp
qed

lemma curve_tail_monotone:
  assumes "get_material_ratio_curve data n = Inr (h, mr)" "data \<noteq> []"
    and "1 \<le> i" "i \<le> j" "j \<le> n"
  shows "fl_le (mr ! i) (mr ! j)"
proof -
  obtain i' j' where ij: "i = Suc i'" "j = Suc j'" "i' \<le> j'" "j' < n"
    using assms(3-5) by (cases i; cases j) auto
  from curve_ratio_nth[OF assms(1,2), of i'] curve_ratio_nth[OF assms(1,2), of j'] ij
  obtain hist edges where
    H: "histogram data n = Inr (hist, edges)" "0 < sum_list hist"
       "mr ! i = Fin (real (cumsum (rev hist) ! i') / real (sum_list hist) * 100)"
       "mr ! j = Fin (real (cumsum (rev hist) ! j') / real (sum_list hist) * 100)" by auto
  have len: "length (cumsum (rev hist)) = n"
    using histogram_lengths[OF H(1)] by (simp add: cumsum_def length_cumsum_from)
  have "sorted (cumsum (rev hist))" unfolding cumsum_def using sorted_cumsum_from by blast
  then have "cumsum (rev hist) ! i' \<le> cumsum (rev hist) ! j'"
    using ij len by (simp add: sorted_nth_mono)
  then have "real (cumsum (rev hist) ! i') / real (sum_list hist) * 100
           \<le> real (cumsum (rev hist) ! j') / real (sum_list hist) * 100"
    using H(2) by (simp add: divide_right_mono)
  then show ?thesis by (simp add: H(3,4))
qed

lemma curve_height_nth:
  assumes "get_material_ratio_curve data n = Inr (h, mr)" "i \<le> n"
  shows "h ! i = Fin (linspace (fst (outer_edges data)) (snd (outer_edges data)) n ! (n - i))"
proof -
  from curve_shape[OF assms(1)] obtain hist edges where
    H: "histogram data n = Inr (hist, edges)" "h = map Fin (rev edges)" by blast
  have e: "edges = linspace (fst (outer_edges data)) (snd (outer_edges data)) n"
    using H(1) by (auto simp: histogram_def Let_def split: if_splits)
  have len: "length edges = Suc n" using histogram_lengths[OF H(1)] by simp
  then have "rev edges ! i = edges ! (n - i)" using assms(2) by (simp add: rev_nth)
  then show ?thesis using len assms(2) by (simp add: H(2) e)
qed

lemma curve_ratios_finite:
  assumes "get_material_ratio_curve data n = Inr (h, mr)" "data \<noteq> []" "i \<le> n"
  shows "is_fin (mr ! i)"
proof (cases i)
  case 0
  then show ?thesis using curve_first_ratio[OF assms(1)] by simp
next
  case (Suc k)
  then have "k < n" using assms(3) by simp
  from curve_ratio_nth[OF assms(1,2) this] show ?thesis using Suc by auto
qed

lemma outer_edges_flat:
  assumes "set data = {c}"
  shows "outer_edges data = (c - 1 / 2, c + 1 / 2)"
proof -
  from assms have "data \<noteq> []" by auto
  then show ?thesis using assms by (simp add: outer_edges_def)
qed

lemma flat_height_nth:
  assumes "get_material_ratio_curve data n = Inr (h, mr)" "set data = {c}" "i \<le> n"
  shows "h ! i = Fin (c + 1 / 2 - real i / real n)"
proof -
  from assms(1) have n: "0 < n"
    by (auto simp: get_material_ratio_curve_def histogram_def split: if_splits)
  have "real (n - i) / real n = 1 - real i / real n"
    using n assms(3) by (simp add: of_nat_diff diff_divide_distrib)
  then show ?thesis
    using curve_height_nth[OF assms(1,3)] assms(3)
    by (simp add: outer_edges_flat[OF assms(2)] linspace_nth)
qed

lemma flat_top_bin_empty:
  assumes "histogram data n = Inr (hist, edges)" "set data = {c}" "3 \<le> n"
  shows "last hist = 0"
proof -
  have n: "0 < n" using assms(3) by simp
  have e: "edges = linspace (c - 1 / 2) (c + 1 / 2) n"
    and h: "hist = map (\<lambda>i. length (filter (in_bin edges n i) data)) [0..<n]"
    using assms(1) n by (auto simp: histogram_def Let_def outer_edges_flat[OF assms(2)])
  have a: "real (n - 1) * (1 / real n) = 1 - 1 / real n"
    using n by (simp add: of_nat_diff diff_divide_distrib)
  have b: "1 / real n < 1 / 2" using assms(3) by (simp add: field_simps)
  have "edges ! (n - 1) = c - 1 / 2 + real (n - 1) * (1 / real n)"
    unfolding e by (simp add: linspace_nth)
  then have "edges ! (n - 1) = c + 1 / 2 - 1 / real n" unfolding a by simp
  with b have "c < edges ! (n - 1)" by linarith
  then have "\<not> in_bin edges n (n - 1) c" by (simp add: in_bin_def)
  then have "filter (in_bin edges n (n - 1)) data = []"
    using assms(2) by (auto simp: filter_empty_conv)
  moreover have "last hist = length (filter (in_bin edges n (n - 1)) data)"
    using n by (simp add: h last_map last_upt)
  ultimately show ?thesis by simp
qed

lemma flat_second_ratio:
  assumes "get_material_ratio_curve data n = Inr (h, mr)" "set data = {c}" "3 \<le> n"
  shows "mr ! 1 = Fin 0"
proof -
  from assms(2) have ne: "data \<noteq> []" by auto
  have n: "0 < n" using assms(3) by simp
  from curve_ratio_nth[OF assms(1) ne n] obtain hist edges where
    H: "histogram data n = Inr (hist, edges)"
       "mr ! Suc 0 = Fin (real (cumsum (rev hist) ! 0) / real (sum_list hist) * 100)" by auto
  have "hist \<noteq> []" using histogram_lengths[OF H(1)] n by auto
  then obtain x xs where r: "rev hist = x # xs" "x = last hist"
    by (cases hist rule: rev_cases) auto
  have "cumsum (rev hist) ! 0 = last hist" by (simp add: r cumsum_def)
  then show ?thesis using H(2) flat_top_bin_empty[OF H(1) assms(2,3)] by simp
qed

section \<open>The search for the equivalence line on a constructed curve\<close>

lemma loop_breaks:
  assumes "mr \<noteq> []" "mr ! 0 = Fin 100"
  shows "equivalence_loop f mr h [0..<length mr] NInf 0 = Inr (NInf, 0)"
proof -
  from assms(1) have "[0..<length mr] = 0 # [1..<length mr]"
    by (simp add: upt_conv_Cons)
  then show ?thesis using assms(2)
    by (simp add: fl_gt_def EQUIVALENCE_LINE_WIDTH_def)
qed

lemma line_of_constructed_curve:
  assumes "get_material_ratio_curve data n = Inr (h, mr)"
  shows "calculate_equivalence_line h mr = Inr (NInf, PInf, PInf, NaN)"
proof -
  have len: "length h = Suc n" "length mr = Suc n" using curve_lengths[OF assms] by simp_all
  then have ne: "mr \<noteq> []" by auto
  have m0: "mr ! 0 = Fin 100" by (rule curve_first_ratio[OF assms])
  from curve_heights_finite[OF assms, of 0] obtain e where h0: "h ! 0 = Fin e"
    by (cases "h ! 0") simp_all
  have "equivalence_loop (interp1d mr h) mr h [0..<length mr] NInf 0 = Inr (NInf, 0)"
    by (rule loop_breaks[OF ne m0])
  then show ?thesis
    using len m0 h0 by (simp add: calculate_equivalence_line_def fl_sub_def signed_inf_def)
qed

lemma init_constructed:
  assumes "get_material_ratio_curve data n = Inr (h, mr)"
  shows "init data n = Inr \<lparr>nbins = n, height = h, material_ratio = mr, slope = NInf,
           intercept = PInf, y_upper = PInf, y_lower = NaN\<rparr>"
  using assms line_of_constructed_curve[OF assms] by (simp add: init_def)

text \<open>
  C9. For every height map (and every number of bins that \<^verbatim>\<open>np.histogram\<close> accepts),
  the search loop leaves at its first iteration through \<^verbatim>\<open>break\<close>: the first material
  ratio is the constant 100 put in front, which exceeds \<open>100 - 40\<close>. No candidate slope
  is evaluated (the result is the same for every interpolant): the stored slope is the
  initial negative infinity and the selected start index is 0.
\<close>

theorem search_exits_at_first_iteration:
  assumes "0 < n"
  shows "\<exists>afc. init data n = Inr afc \<and>
           material_ratio afc ! 0 = Fin 100 \<and>
           fl_gt (material_ratio afc ! 0) (Fin (100 - EQUIVALENCE_LINE_WIDTH)) \<and>
           (\<forall>smc_fit. equivalence_loop smc_fit (material_ratio afc) (height afc)
                         [0..<length (material_ratio afc)] NInf 0 = Inr (NInf, 0)) \<and>
           slope afc = NInf"
proof -
  from curve_ok[OF assms] obtain h mr where c: "get_material_ratio_curve data n = Inr (h, mr)"
    by blast
  have m0: "mr ! 0 = Fin 100" by (rule curve_first_ratio[OF c])
  have ne: "mr \<noteq> []" using curve_lengths[OF c] by auto
  have "\<forall>smc_fit. equivalence_loop smc_fit mr h [0..<length mr] NInf 0 = Inr (NInf, 0)"
    using loop_breaks[OF ne m0] by blast
  then show ?thesis
    using init_constructed[OF c] m0 by (simp add: fl_gt_def EQUIVALENCE_LINE_WIDTH_def)
qed

theorem search_exits_at_first_iteration_witness:
  "(0::nat) < 2 \<and>
   (\<exists>afc. init [0, 1] 2 = Inr afc \<and>
      material_ratio afc ! 0 = Fin 100 \<and>
      fl_gt (material_ratio afc ! 0) (Fin (100 - EQUIVALENCE_LINE_WIDTH)) \<and>
      (\<forall>smc_fit. equivalence_loop smc_fit (material_ratio afc) (height afc)
                    [0..<length (material_ratio afc)] NInf 0 = Inr (NInf, 0)) \<and>
      slope afc = NInf)"
  using search_exits_at_first_iteration[of 2 "[0, 1]"] by simp

section \<open>Lengths, heights and material ratios of the constructed curve\<close>

text \<open>
  C8. For every height map and every number of bins \<open>n \<ge> 1\<close>, the constructed curve has
  \<open>n + 1\<close> heights and \<open>n + 1\<close> material ratios, and the heights are the bin edges of the
  histogram reversed: strictly descending, from the largest edge to the smallest.
\<close>

theorem curve_lengths_and_descending_heights:
  assumes "1 \<le> n"
  shows "\<exists>afc hist edges. init data n = Inr afc \<and> histogram data n = Inr (hist, edges) \<and>
           length (height afc) = n + 1 \<and> length (material_ratio afc) = n + 1 \<and>
           height afc = map Fin (rev edges) \<and>
           sorted_wrt (\<lambda>a b. b < a) (rev edges) \<and>
           hd (rev edges) = Max (set edges) \<and> last (rev edges) = Min (set edges)"
proof -
  from assms have n: "0 < n" by simp
  from curve_ok[OF n] obtain h mr where c: "get_material_ratio_curve data n = Inr (h, mr)"
    by blast
  from curve_shape[OF c] obtain hist edges where
    H: "histogram data n = Inr (hist, edges)" "h = map Fin (rev edges)" by blast
  have e: "edges = linspace (fst (outer_edges data)) (snd (outer_edges data)) n"
    using H(1) n by (simp add: histogram_def Let_def)
  have s: "sorted_wrt (<) edges"
    unfolding e by (rule linspace_strict[OF outer_edges_less n])
  have ne: "edges \<noteq> []" using histogram_lengths[OF H(1)] by auto
  have "hd (rev edges) = Max (set edges) \<and> last (rev edges) = Min (set edges)"
    using strict_sorted_hd_last[OF s ne] ne by (simp add: hd_rev last_rev)
  moreover have "sorted_wrt (\<lambda>a b. b < a) (rev edges)"
    using s by (simp add: sorted_wrt_rev)
  ultimately show ?thesis
    using init_constructed[OF c] H curve_lengths[OF c] by simp
qed

theorem curve_lengths_and_descending_heights_witness:
  "(1::nat) \<le> 2 \<and>
   (\<exists>afc hist edges. init [0, 1] 2 = Inr afc \<and> histogram [0, 1] 2 = Inr (hist, edges) \<and>
      length (height afc) = 2 + 1 \<and> length (material_ratio afc) = 2 + 1 \<and>
      height afc = map Fin (rev edges) \<and>
      sorted_wrt (\<lambda>a b. b < a) (rev edges) \<and>
      hd (rev edges) = Max (set edges) \<and> last (rev edges) = Min (set edges))"
  using curve_lengths_and_descending_heights[of 2 "[0, 1]"] by simp

text \<open>
  C10. For every non-empty height map, the last material ratio, at index \<open>nbins\<close>, is
  100: the last cumulative sum of the reversed counts is their total, which is positive,
  and the ratio is that total over itself times 100.
\<close>

theorem last_material_ratio_is_100:
  assumes "data \<noteq> []" "0 < n"
  shows "\<exists>afc hist edges. init data n = Inr afc \<and> histogram data n = Inr (hist, edges) \<and>
           last (cumsum (rev hist)) = sum_list hist \<and> 0 < sum_list hist \<and>
           material_ratio afc ! n = Fin 100"
proof -
  from curve_ok[OF assms(2)] obtain h mr where c: "get_material_ratio_curve data n = Inr (h, mr)"
    by blast
  from curve_shape[OF c] obtain hist edges where H: "histogram data n = Inr (hist, edges)"
    by blast
  from assms(1) obtain v where "v \<in> set data" by (cases data) auto
  from histogram_counts_some[OF H this] have pos: "0 < sum_list hist" .
  have "rev hist \<noteq> []" using histogram_lengths[OF H] assms(2) by auto
  then have "last (cumsum (rev hist)) = sum_list hist"
    unfolding cumsum_def using last_cumsum_from[of "rev hist" 0] by (simp add: sum_list_rev)
  then show ?thesis
    using init_constructed[OF c] curve_last_ratio[OF c assms(1)] H pos by simp
qed

theorem last_material_ratio_is_100_witness:
  "[0, 1] \<noteq> ([] :: real list) \<and> (0::nat) < 2 \<and>
   (\<exists>afc hist edges. init [0, 1] 2 = Inr afc \<and> histogram [0, 1] 2 = Inr (hist, edges) \<and>
      last (cumsum (rev hist)) = sum_list hist \<and> 0 < sum_list hist \<and>
      material_ratio afc ! 2 = Fin 100)"
  using last_material_ratio_is_100[of "[0, 1]" 2] by simp

text \<open>
  C2, as the spec has it, fails: the 100 put in front is followed by the cumulative
  ratios, which start below 100 whenever the highest bin does not hold all the data.
  For the two heights 0 and 1 in two bins the material ratios are 100, 50, 100.
\<close>

theorem material_ratio_not_monotone:
  "init [0, 1] 2 =
     Inr \<lparr>nbins = 2, height = [Fin 1, Fin (1 / 2), Fin 0],
          material_ratio = [Fin 100, Fin 50, Fin 100], slope = NInf, intercept = PInf,
          y_upper = PInf, y_lower = NaN\<rparr> \<and>
   \<not> fl_le (material_ratio (projr (init [0, 1] 2)) ! 0)
            (material_ratio (projr (init [0, 1] 2)) ! 1)"
proof -
  have "get_material_ratio_curve [0, 1] 2 =
          Inr ([Fin 1, Fin (1 / 2), Fin 0], [Fin 100, Fin 50, Fin 100])"
    by (simp add: get_material_ratio_curve_def histogram_def outer_edges_def linspace_def
        in_bin_def cumsum_def Let_def upt_rec)
  from init_constructed[OF this] show ?thesis by simp
qed

text \<open>
  C2, amended. For every non-empty height map the first material ratio is 100, and from
  index 1 on the material ratios are non-decreasing in increasing index order, the
  direction along which the heights descend: \<open>material_ratio[i] \<le> material_ratio[j]\<close>
  for \<open>1 \<le> i \<le> j \<le> nbins\<close>.
\<close>

theorem first_ratio_100_and_tail_monotone:
  assumes "data \<noteq> []" "0 < n"
  shows "\<exists>afc. init data n = Inr afc \<and> material_ratio afc ! 0 = Fin 100 \<and>
           (\<forall>i j. 1 \<le> i \<and> i \<le> j \<and> j \<le> n \<longrightarrow>
                  fl_le (material_ratio afc ! i) (material_ratio afc ! j))"
proof -
  from curve_ok[OF assms(2)] obtain h mr where c: "get_material_ratio_curve data n = Inr (h, mr)"
    by blast
  have "\<forall>i j. 1 \<le> i \<and> i \<le> j \<and> j \<le> n \<longrightarrow> fl_le (mr ! i) (mr ! j)"
    using curve_tail_monotone[OF c assms(1)] by blast
  then show ?thesis
    using init_constructed[OF c] curve_first_ratio[OF c] by simp
qed

theorem first_ratio_100_and_tail_monotone_witness:
  "[0, 1] \<noteq> ([] :: real list) \<and> (0::nat) < 2 \<and>
   (\<exists>afc. init [0, 1] 2 = Inr afc \<and> material_ratio afc ! 0 = Fin 100 \<and>
      (\<forall>i j. 1 \<le> i \<and> i \<le> j \<and> j \<le> 2 \<longrightarrow>
             fl_le (material_ratio afc ! i) (material_ratio afc ! j)))"
  using first_ratio_100_and_tail_monotone[of "[0, 1]" 2] by simp

section \<open>The flat surface\<close>

text \<open>
  C3, as the spec has it, fails for the surface of the repository's tests, 100 times 100
  zeros in 10000 bins. The construction succeeds, but \<^verbatim>\<open>np.histogram\<close> widens the empty
  range: the heights run from 1/2 down, the highest bin is empty, so the material ratio
  after the leading 100 is 0, and \<^verbatim>\<open>Sk()\<close> is not a number.
\<close>

theorem flat_surface_values:
  "\<not> isl (init (replicate 10000 0) 10000) \<and>
   Sk (projr (init (replicate 10000 0) 10000)) = NaN \<and>
   material_ratio (projr (init (replicate 10000 0) 10000)) ! 1 = Fin 0 \<and>
   height (projr (init (replicate 10000 0) 10000)) ! 0 = Fin (1 / 2) \<and>
   length (height (projr (init (replicate 10000 0) 10000))) = 10001"
proof -
  have s: "set (replicate 10000 (0::real)) = {0}" by simp
  obtain h mr where c: "get_material_ratio_curve (replicate 10000 0) 10000 = Inr (h, mr)"
    using curve_ok[of 10000 "replicate 10000 0"] by auto
  have "mr ! 1 = Fin 0" by (rule flat_second_ratio[OF c s]) simp
  moreover have "h ! 0 = Fin (1 / 2)" using flat_height_nth[OF c s, of 0] by simp
  moreover have "length h = 10001" using curve_lengths[OF c] by simp
  ultimately show ?thesis
    using init_constructed[OF c] by (simp add: Sk_def fl_sub_def)
qed

text \<open>
  C3, amended. For a height map all of whose values equal a single constant \<open>c\<close> and any
  number of bins \<open>n \<ge> 1\<close> (10000 in the scenario), the construction succeeds without a
  division by zero: every height and every material ratio is a finite number, there are
  \<open>n + 1\<close> of each, and the heights are not constant but the equally spaced edges of the
  widened range, \<open>height[i] = c + 1/2 - i/n\<close>.
\<close>

theorem flat_surface_curve:
  assumes "set data = {c}" "0 < n"
  shows "\<exists>afc. init data n = Inr afc \<and>
           length (height afc) = n + 1 \<and> length (material_ratio afc) = n + 1 \<and>
           (\<forall>i. i \<le> n \<longrightarrow> height afc ! i = Fin (c + 1 / 2 - real i / real n) \<and>
                          is_fin (material_ratio afc ! i))"
proof -
  from curve_ok[OF assms(2)] obtain h mr where k: "get_material_ratio_curve data n = Inr (h, mr)"
    by blast
  from assms(1) have ne: "data \<noteq> []" by auto
  have "\<forall>i. i \<le> n \<longrightarrow> h ! i = Fin (c + 1 / 2 - real i / real n) \<and> is_fin (mr ! i)"
    using flat_height_nth[OF k assms(1)] curve_ratios_finite[OF k ne] by blast
  then show ?thesis
    using init_constructed[OF k] curve_lengths[OF k] by simp
qed

theorem flat_surface_curve_witness:
  "set (replicate 10000 (0::real)) = {0} \<and> (0::nat) < 10000 \<and>
   (\<exists>afc. init (replicate 10000 0) 10000 = Inr afc \<and>
      length (height afc) = 10000 + 1 \<and> length (material_ratio afc) = 10000 + 1 \<and>
      (\<forall>i. i \<le> 10000 \<longrightarrow> height afc ! i = Fin (0 + 1 / 2 - real i / real (10000::nat)) \<and>
                         is_fin (material_ratio afc ! i)))"
proof -
  have s: "set (replicate 10000 (0::real)) = {0}" by simp
  have n: "(0::nat) < 10000" by simp
  from flat_surface_curve[OF s n] s n show ?thesis by blast
qed

section \<open>The search for the equivalence line on an arbitrary curve\<close>

lemma valid_candidates_subset: "set (valid_candidates mr is) \<subseteq> set is"
  by (induction "is") auto

lemma fl_gt_trans_fin:
  assumes "is_fin x" "\<not> fl_gt x m" "fl_gt m' m"
  shows "fl_lt x m'"
  using assms by (cases x; cases m; cases m') (auto simp: fl_gt_def)

lemma fl_not_gt_le:
  assumes "is_fin x" "is_fin y" "\<not> fl_gt x y"
  shows "fl_le x y"
  using assms by (cases x; cases y) (auto simp: fl_gt_def)

lemma fl_lt_trans: "fl_lt a b \<Longrightarrow> fl_lt b c \<Longrightarrow> fl_lt a c"
  by (cases a; cases b; cases c) auto

lemma fl_lt_le: "fl_lt a b \<Longrightarrow> fl_le a b"
  by (cases a; cases b) auto

lemma fl_le_refl_fin: "is_fin a \<Longrightarrow> fl_le a a"
  by (cases a) auto

lemma loop_selects_first_maximum:
  assumes "\<forall>i\<in>set is. i < length h" "sorted_wrt (<) is"
    and "\<forall>i\<in>set (valid_candidates mr is). is_fin (candidate_slope f h mr i)"
  shows "\<exists>m' k'. equivalence_loop f mr h is m k = Inr (m', k') \<and>
           ((m' = m \<and> k' = k \<and> (\<forall>j\<in>set (valid_candidates mr is). \<not> fl_gt (candidate_slope f h mr j) m))
            \<or> (k' \<in> set (valid_candidates mr is) \<and> m' = candidate_slope f h mr k' \<and> fl_gt m' m \<and>
               (\<forall>j\<in>set (valid_candidates mr is). fl_le (candidate_slope f h mr j) m') \<and>
               (\<forall>j\<in>set (valid_candidates mr is). j < k' \<longrightarrow> fl_lt (candidate_slope f h mr j) m')))"
  using assms
proof (induction "is" arbitrary: m k)
  case Nil
  then show ?case by simp
next
  case (Cons i rest)
  let ?sl = "candidate_slope f h mr"
  let ?C = "valid_candidates mr rest"
  have rest_h: "\<forall>i\<in>set rest. i < length h" and rest_s: "sorted_wrt (<) rest"
    and i_lt: "\<forall>j\<in>set rest. i < j" and ih: "i < length h"
    using Cons.prems(1,2) by auto
  have i_lt_C: "\<forall>j\<in>set ?C. i < j" using i_lt valid_candidates_subset[of mr rest] by blast
  show ?case
  proof (cases "fl_gt (mr ! i) (Fin (100 - EQUIVALENCE_LINE_WIDTH))")
    case True
    then show ?thesis by simp
  next
    case brk: False
    show ?thesis
    proof (cases "fl_gt (fl_add (mr ! i) (Fin EQUIVALENCE_LINE_WIDTH)) (Fin 100)")
      case True
      then have vc: "valid_candidates mr (i # rest) = ?C" using brk by simp
      have "\<forall>i\<in>set ?C. is_fin (?sl i)" using Cons.prems(3) vc by simp
      from Cons.IH[OF rest_h rest_s this, of m k] show ?thesis
        using brk True by (simp add: Let_def)
    next
      case skp: False
      then have vc: "valid_candidates mr (i # rest) = i # ?C" using brk by simp
      have finC: "\<forall>i\<in>set ?C. is_fin (?sl i)" and fini: "is_fin (?sl i)"
        using Cons.prems(3) vc by simp_all
      show ?thesis
      proof (cases "fl_gt (?sl i) m")
        case True
        then have step: "equivalence_loop f mr h (i # rest) m k = equivalence_loop f mr h rest (?sl i) i"
          using brk skp ih by (simp add: Let_def candidate_slope_def)
        from Cons.IH[OF rest_h rest_s finC, of "?sl i" i] obtain m' k' where
          r: "equivalence_loop f mr h rest (?sl i) i = Inr (m', k')"
          and d: "(m' = ?sl i \<and> k' = i \<and> (\<forall>j\<in>set ?C. \<not> fl_gt (?sl j) (?sl i)))
            \<or> (k' \<in> set ?C \<and> m' = ?sl k' \<and> fl_gt m' (?sl i) \<and>
               (\<forall>j\<in>set ?C. fl_le (?sl j) m') \<and>
               (\<forall>j\<in>set ?C. j < k' \<longrightarrow> fl_lt (?sl j) m'))" by blast
        from d show ?thesis
        proof
          assume a: "m' = ?sl i \<and> k' = i \<and> (\<forall>j\<in>set ?C. \<not> fl_gt (?sl j) (?sl i))"
          then have "\<forall>j\<in>set ?C. fl_le (?sl j) m'"
            using finC fini fl_not_gt_le by blast
          moreover have "fl_le (?sl i) m'" using a fini fl_le_refl_fin by simp
          moreover have "\<forall>j\<in>set (i # ?C). j < k' \<longrightarrow> fl_lt (?sl j) m'"
            using a i_lt_C by auto
          ultimately show ?thesis
            using a True r step vc by auto
        next
          assume b: "k' \<in> set ?C \<and> m' = ?sl k' \<and> fl_gt m' (?sl i) \<and>
               (\<forall>j\<in>set ?C. fl_le (?sl j) m') \<and>
               (\<forall>j\<in>set ?C. j < k' \<longrightarrow> fl_lt (?sl j) m')"
          then have lt: "fl_lt (?sl i) m'" unfolding fl_gt_def by blast
          have "fl_lt m (?sl i)" using True by (simp add: fl_gt_def)
          then have "fl_gt m' m" using lt fl_lt_trans by (auto simp: fl_gt_def)
          moreover have "fl_le (?sl i) m'" using lt by (rule fl_lt_le)
          ultimately show ?thesis
            using b lt r step vc by auto
        qed
      next
        case False
        then have step: "equivalence_loop f mr h (i # rest) m k = equivalence_loop f mr h rest m k"
          using brk skp ih by (simp add: Let_def candidate_slope_def)
        from Cons.IH[OF rest_h rest_s finC, of m k] obtain m' k' where
          r: "equivalence_loop f mr h rest m k = Inr (m', k')"
          and d: "(m' = m \<and> k' = k \<and> (\<forall>j\<in>set ?C. \<not> fl_gt (?sl j) m))
            \<or> (k' \<in> set ?C \<and> m' = ?sl k' \<and> fl_gt m' m \<and>
               (\<forall>j\<in>set ?C. fl_le (?sl j) m') \<and>
               (\<forall>j\<in>set ?C. j < k' \<longrightarrow> fl_lt (?sl j) m'))" by blast
        from d show ?thesis
        proof
          assume "m' = m \<and> k' = k \<and> (\<forall>j\<in>set ?C. \<not> fl_gt (?sl j) m)"
          then show ?thesis using False r step vc by auto
        next
          assume b: "k' \<in> set ?C \<and> m' = ?sl k' \<and> fl_gt m' m \<and>
               (\<forall>j\<in>set ?C. fl_le (?sl j) m') \<and>
               (\<forall>j\<in>set ?C. j < k' \<longrightarrow> fl_lt (?sl j) m')"
          then have lt: "fl_lt (?sl i) m'" using fl_gt_trans_fin[OF fini False] by blast
          then have "fl_le (?sl i) m'" by (rule fl_lt_le)
          then show ?thesis using b lt r step vc by auto
        qed
      qed
    qed
  qed
qed

lemma candidates_lt_length: "i \<in> set (candidates mr) \<Longrightarrow> i < length mr"
  using valid_candidates_subset[of mr "[0..<length mr]"] by (auto simp: candidates_def)

lemma equivalence_line_selection:
  assumes "length h = length mr"
    and "candidates mr \<noteq> []"
    and "list_all (\<lambda>i. is_fin (candidate_slope (interp1d mr h) h mr i)) (candidates mr)"
  shows "\<exists>i s. i \<in> set (candidates mr) \<and> s = candidate_slope (interp1d mr h) h mr i \<and>
           equivalence_loop (interp1d mr h) mr h [0..<length mr] NInf 0 = Inr (s, i) \<and>
           is_fin s \<and>
           the_fin s = Max ((\<lambda>j. the_fin (candidate_slope (interp1d mr h) h mr j)) ` set (candidates mr)) \<and>
           (\<forall>j\<in>set (candidates mr). j < i \<longrightarrow> fl_lt (candidate_slope (interp1d mr h) h mr j) s) \<and>
           calculate_equivalence_line h mr =
             Inr (s, fl_sub (h ! i) (fl_mul s (mr ! i)), fl_sub (h ! i) (fl_mul s (mr ! i)),
                  fl_add (fl_mul s (Fin 100)) (fl_sub (h ! i) (fl_mul s (mr ! i))))"
proof -
  let ?sl = "candidate_slope (interp1d mr h) h mr"
  let ?C = "candidates mr"
  have fin: "\<forall>i\<in>set ?C. is_fin (?sl i)" using assms(3) by (simp add: list_all_iff)
  have a: "\<forall>i\<in>set [0..<length mr]. i < length h" using assms(1) by simp
  have b: "sorted_wrt (<) [0..<length mr]" by (rule sorted_wrt_upt)
  have c: "\<forall>i\<in>set (valid_candidates mr [0..<length mr]). is_fin (?sl i)"
    using fin by (simp add: candidates_def)
  from loop_selects_first_maximum[OF a b c, of NInf 0] obtain s i where
    r: "equivalence_loop (interp1d mr h) mr h [0..<length mr] NInf 0 = Inr (s, i)"
    and d: "(s = NInf \<and> i = 0 \<and> (\<forall>j\<in>set ?C. \<not> fl_gt (?sl j) NInf))
            \<or> (i \<in> set ?C \<and> s = ?sl i \<and> fl_gt s NInf \<and>
               (\<forall>j\<in>set ?C. fl_le (?sl j) s) \<and>
               (\<forall>j\<in>set ?C. j < i \<longrightarrow> fl_lt (?sl j) s))"
    unfolding candidates_def by blast
  from assms(2) obtain j0 where j0: "j0 \<in> set ?C" by (cases ?C) auto
  then have "is_fin (?sl j0)" using fin by blast
  then have "fl_gt (?sl j0) NInf" by (cases "?sl j0") (simp_all add: fl_gt_def)
  with d j0 have sel: "i \<in> set ?C" "s = ?sl i" "\<forall>j\<in>set ?C. fl_le (?sl j) s"
    "\<forall>j\<in>set ?C. j < i \<longrightarrow> fl_lt (?sl j) s" by blast+
  have sfin: "is_fin s" using sel(1,2) fin by blast
  have le: "\<And>x y. is_fin x \<Longrightarrow> is_fin y \<Longrightarrow> fl_le x y \<Longrightarrow> the_fin x \<le> the_fin y"
  proof -
    fix x y show "is_fin x \<Longrightarrow> is_fin y \<Longrightarrow> fl_le x y \<Longrightarrow> the_fin x \<le> the_fin y"
      by (cases x; cases y) auto
  qed
  have "Max ((\<lambda>j. the_fin (?sl j)) ` set ?C) = the_fin s"
  proof (rule Max_eqI)
    show "finite ((\<lambda>j. the_fin (?sl j)) ` set ?C)" by simp
    show "the_fin s \<in> (\<lambda>j. the_fin (?sl j)) ` set ?C" using sel(1,2) by blast
    fix y assume "y \<in> (\<lambda>j. the_fin (?sl j)) ` set ?C"
    then obtain j where j: "j \<in> set ?C" "y = the_fin (?sl j)" by blast
    then show "y \<le> the_fin s" using le[of "?sl j" s] fin sfin sel(3) by blast
  qed
  moreover have "i < length mr" using sel(1) by (rule candidates_lt_length)
  then have "calculate_equivalence_line h mr =
             Inr (s, fl_sub (h ! i) (fl_mul s (mr ! i)), fl_sub (h ! i) (fl_mul s (mr ! i)),
                  fl_add (fl_mul s (Fin 100)) (fl_sub (h ! i) (fl_mul s (mr ! i))))"
    using r assms(1) by (simp add: calculate_equivalence_line_def Let_def)
  ultimately show ?thesis using sel r sfin by auto
qed

text \<open>
  C1. For every curve that has at least one valid candidate (the heights matching the
  material ratios in number, the candidate slopes being numbers), the slope of the
  constructed equivalence line is the maximum of the candidate slopes
  \<open>(height_at_ratio(material_ratio[i] + 40) - height[i]) / 40\<close>, the selected index is
  the first candidate that attains the maximum, and the outputs are
  \<open>intercept = height[i] - slope * material_ratio[i]\<close>, \<open>y_upper = intercept\<close> and
  \<open>y_lower = slope * 100 + intercept\<close>.
\<close>

theorem equivalence_line_is_first_maximal_secant:
  assumes "length h = length mr"
    and "candidates mr \<noteq> []"
    and "list_all (\<lambda>i. is_fin (candidate_slope (interp1d mr h) h mr i)) (candidates mr)"
  shows "\<exists>i s. i \<in> set (candidates mr) \<and> s = candidate_slope (interp1d mr h) h mr i \<and>
           equivalence_loop (interp1d mr h) mr h [0..<length mr] NInf 0 = Inr (s, i) \<and>
           is_fin s \<and>
           the_fin s = Max ((\<lambda>j. the_fin (candidate_slope (interp1d mr h) h mr j)) ` set (candidates mr)) \<and>
           (\<forall>j\<in>set (candidates mr). j < i \<longrightarrow> fl_lt (candidate_slope (interp1d mr h) h mr j) s) \<and>
           calculate_equivalence_line h mr =
             Inr (s, fl_sub (h ! i) (fl_mul s (mr ! i)), fl_sub (h ! i) (fl_mul s (mr ! i)),
                  fl_add (fl_mul s (Fin 100)) (fl_sub (h ! i) (fl_mul s (mr ! i))))"
  by (rule equivalence_line_selection[OF assms])

lemma example_candidates:
  "candidates [Fin 0, Fin 20, Fin 60, Fin 100] = [0, 1, 2]"
  by (simp add: candidates_def fl_gt_def EQUIVALENCE_LINE_WIDTH_def upt_rec)

lemma example_slopes:
  "map (candidate_slope (interp1d [Fin 0, Fin 20, Fin 60, Fin 100] [Fin 3, Fin 2, Fin 1, Fin 0])
          [Fin 3, Fin 2, Fin 1, Fin 0] [Fin 0, Fin 20, Fin 60, Fin 100]) [0, 1, 2]
   = [Fin (- (3 / 80)), Fin (- (1 / 40)), Fin (- (1 / 40))]"
  by (simp add: candidate_slope_def interp1d_def sort_pts_def sort_le_def fl_sub_def
      EQUIVALENCE_LINE_WIDTH_def)

theorem equivalence_line_is_first_maximal_secant_witness:
  "length [Fin 3, Fin 2, Fin 1, Fin 0] = length [Fin 0, Fin 20, Fin 60, Fin 100] \<and>
   candidates [Fin 0, Fin 20, Fin 60, Fin 100] \<noteq> [] \<and>
   list_all (\<lambda>i. is_fin (candidate_slope
                (interp1d [Fin 0, Fin 20, Fin 60, Fin 100] [Fin 3, Fin 2, Fin 1, Fin 0])
                [Fin 3, Fin 2, Fin 1, Fin 0] [Fin 0, Fin 20, Fin 60, Fin 100] i))
            (candidates [Fin 0, Fin 20, Fin 60, Fin 100]) \<and>
   calculate_equivalence_line [Fin 3, Fin 2, Fin 1, Fin 0] [Fin 0, Fin 20, Fin 60, Fin 100] =
     Inr (Fin (- (1 / 40)), Fin (5 / 2), Fin (5 / 2), Fin 0)"
proof -
  let ?h = "[Fin 3, Fin 2, Fin 1, Fin 0]" and ?mr = "[Fin 0, Fin 20, Fin 60, Fin 100]"
  have a: "length ?h = length ?mr" by simp
  have b: "candidates ?mr \<noteq> []" by (simp add: example_candidates)
  have c: "list_all (\<lambda>i. is_fin (candidate_slope (interp1d ?mr ?h) ?h ?mr i)) (candidates ?mr)"
    using example_slopes by (simp add: example_candidates)
  from equivalence_line_is_first_maximal_secant[OF a b c] obtain i s where
    r: "i \<in> set (candidates ?mr)" "s = candidate_slope (interp1d ?mr ?h) ?h ?mr i"
       "is_fin s"
       "the_fin s = Max ((\<lambda>j. the_fin (candidate_slope (interp1d ?mr ?h) ?h ?mr j)) ` set (candidates ?mr))"
       "\<forall>j\<in>set (candidates ?mr). j < i \<longrightarrow> fl_lt (candidate_slope (interp1d ?mr ?h) ?h ?mr j) s"
       "calculate_equivalence_line ?h ?mr =
             Inr (s, fl_sub (?h ! i) (fl_mul s (?mr ! i)), fl_sub (?h ! i) (fl_mul s (?mr ! i)),
                  fl_add (fl_mul s (Fin 100)) (fl_sub (?h ! i) (fl_mul s (?mr ! i))))"
    by blast
  have sl: "candidate_slope (interp1d ?mr ?h) ?h ?mr 0 = Fin (- (3 / 80))"
    "candidate_slope (interp1d ?mr ?h) ?h ?mr 1 = Fin (- (1 / 40))"
    "candidate_slope (interp1d ?mr ?h) ?h ?mr 2 = Fin (- (1 / 40))"
    using example_slopes by simp_all
  have "the_fin s = - (1 / 40)" using r(4) sl by (simp add: example_candidates)
  then have i: "i = 1"
    using r(1,2,5) sl by (auto simp: example_candidates)
  then have "s = Fin (- (1 / 40))" using r(2) sl by simp
  then have "calculate_equivalence_line ?h ?mr = Inr (Fin (- (1 / 40)), Fin (5 / 2), Fin (5 / 2), Fin 0)"
    using r(6) i by (simp add: fl_sub_def)
  then show ?thesis using a b c by blast
qed




section \<open>The sign of the core depth\<close>







lemma candidate_index:
  assumes "i \<in> set (valid_candidates mr is)"
  shows "i \<in> set is \<and> \<not> fl_gt (mr ! i) (Fin (100 - EQUIVALENCE_LINE_WIDTH))"
  using assms by (induction "is") (auto split: if_splits)






section \<open>The peak parameter and the nearest index\<close>

lemma fl_lt_le_trans: "fl_lt a b \<Longrightarrow> fl_le b c \<Longrightarrow> fl_lt a c"
  by (cases a; cases b; cases c) auto

lemma fl_le_refl: "a \<noteq> NaN \<Longrightarrow> fl_le a a"
  by (cases a) auto

lemma fl_not_lt_le: "a \<noteq> NaN \<Longrightarrow> b \<noteq> NaN \<Longrightarrow> \<not> fl_lt a b \<Longrightarrow> fl_le b a"
  by (cases a; cases b) auto

lemma argmin_scan_first_minimum:
  assumes "\<forall>d\<in>set (pre @ ds). d \<noteq> NaN"
    and "ibest < length pre" "best = pre ! ibest"
    and "\<forall>j<length pre. fl_le best (pre ! j)"
    and "\<forall>j<ibest. fl_lt best (pre ! j)"
  shows "argmin_scan ds (length pre) best ibest < length (pre @ ds) \<and>
         (\<forall>j<length (pre @ ds). fl_le ((pre @ ds) ! argmin_scan ds (length pre) best ibest)
                                       ((pre @ ds) ! j)) \<and>
         (\<forall>j<argmin_scan ds (length pre) best ibest.
             fl_lt ((pre @ ds) ! argmin_scan ds (length pre) best ibest) ((pre @ ds) ! j))"
  using assms
proof (induction ds arbitrary: pre best ibest)
  case Nil
  then show ?case by simp
next
  case (Cons d ds)
  have d: "d \<noteq> NaN" and b: "best \<noteq> NaN" using Cons.prems(1,2,3) by auto
  have all: "\<forall>x\<in>set ((pre @ [d]) @ ds). x \<noteq> NaN" using Cons.prems(1) by simp
  show ?case
  proof (cases "fl_lt d best")
    case True
    have 1: "length pre < length (pre @ [d])" by simp
    have 2: "d = (pre @ [d]) ! length pre" by simp
    have 3: "\<forall>j<length (pre @ [d]). fl_le d ((pre @ [d]) ! j)"
    proof (intro allI impI)
      fix j assume "j < length (pre @ [d])"
      then consider "j < length pre" | "j = length pre" by fastforce
      then show "fl_le d ((pre @ [d]) ! j)"
      proof cases
        case 1
        then have "fl_le best (pre ! j)" using Cons.prems(4) by simp
        then have "fl_lt d (pre ! j)" using True fl_lt_le_trans by blast
        then show ?thesis using 1 by (simp add: nth_append fl_lt_le)
      next
        case 2
        then show ?thesis using d by (simp add: fl_le_refl)
      qed
    qed
    have 4: "\<forall>j<length pre. fl_lt d ((pre @ [d]) ! j)"
    proof (intro allI impI)
      fix j assume j: "j < length pre"
      then have "fl_le best (pre ! j)" using Cons.prems(4) by simp
      then have "fl_lt d (pre ! j)" using True fl_lt_le_trans by blast
      then show "fl_lt d ((pre @ [d]) ! j)" using j by (simp add: nth_append)
    qed
    from Cons.IH[OF all 1 2 3 4] True show ?thesis by simp
  next
    case False
    have 1: "ibest < length (pre @ [d])" using Cons.prems(2) by simp
    have 2: "best = (pre @ [d]) ! ibest" using Cons.prems(2,3) by (simp add: nth_append)
    have 3: "\<forall>j<length (pre @ [d]). fl_le best ((pre @ [d]) ! j)"
    proof (intro allI impI)
      fix j assume "j < length (pre @ [d])"
      then consider "j < length pre" | "j = length pre" by fastforce
      then show "fl_le best ((pre @ [d]) ! j)"
      proof cases
        case 1
        then show ?thesis using Cons.prems(4) by (simp add: nth_append)
      next
        case 2
        then show ?thesis using fl_not_lt_le[OF d b False] by simp
      qed
    qed
    have 4: "\<forall>j<ibest. fl_lt best ((pre @ [d]) ! j)"
      using Cons.prems(2,5) by (simp add: nth_append)
    from Cons.IH[OF all 1 2 3 4] False show ?thesis by simp
  qed
qed

lemma distance_not_nan:
  assumes "is_fin a" "t \<noteq> NaN"
  shows "fl_abs (fl_sub a t) \<noteq> NaN"
  using assms by (cases a; cases t) (simp_all add: fl_sub_def)

lemma argclosest_first_minimum:
  assumes "array \<noteq> []" "list_all is_fin array" "target \<noteq> NaN"
  shows "\<exists>idx. argclosest target array = Inr idx \<and> idx < length array \<and>
           (\<forall>j<length array. fl_le (fl_abs (fl_sub (array ! idx) target))
                                    (fl_abs (fl_sub (array ! j) target))) \<and>
           (\<forall>j<idx. fl_lt (fl_abs (fl_sub (array ! idx) target))
                           (fl_abs (fl_sub (array ! j) target)))"
proof -
  let ?D = "map (\<lambda>a. fl_abs (fl_sub a target)) array"
  from assms(1) obtain d ds where D: "?D = d # ds" by (cases array) auto
  have nn: "\<forall>x\<in>set ([d] @ ds). x \<noteq> NaN"
  proof
    fix x assume "x \<in> set ([d] @ ds)"
    then have "x \<in> set ?D" using D by simp
    then obtain a where "a \<in> set array" "x = fl_abs (fl_sub a target)" by auto
    then show "x \<noteq> NaN" using assms(2,3) distance_not_nan by (auto simp: list_all_iff)
  qed
  have d: "d \<noteq> NaN" using nn by simp
  have r: "argclosest target array = Inr (argmin_scan ds 1 d 0)"
    using D by (simp add: argclosest_def)
  have "argmin_scan ds (length [d]) d 0 < length ([d] @ ds) \<and>
         (\<forall>j<length ([d] @ ds). fl_le (([d] @ ds) ! argmin_scan ds (length [d]) d 0)
                                       (([d] @ ds) ! j)) \<and>
         (\<forall>j<argmin_scan ds (length [d]) d 0.
             fl_lt (([d] @ ds) ! argmin_scan ds (length [d]) d 0) (([d] @ ds) ! j))"
    by (rule argmin_scan_first_minimum[OF nn]) (simp_all add: fl_le_refl[OF d])
  then have p: "argmin_scan ds 1 d 0 < length ?D \<and>
         (\<forall>j<length ?D. fl_le (?D ! argmin_scan ds 1 d 0) (?D ! j)) \<and>
         (\<forall>j<argmin_scan ds 1 d 0. fl_lt (?D ! argmin_scan ds 1 d 0) (?D ! j))"
    unfolding D by simp
  then have "argmin_scan ds 1 d 0 < length array" by simp
  then show ?thesis using p r by (auto simp: nth_map)
qed

lemma curve_two_heights:
  "get_material_ratio_curve [0, 1] 2 =
     Inr ([Fin 1, Fin (1 / 2), Fin 0], [Fin 100, Fin 50, Fin 100])"
  by (simp add: get_material_ratio_curve_def histogram_def outer_edges_def linspace_def
      in_bin_def cumsum_def Let_def upt_rec)

lemma init_two_heights: "init [0, 1] 2 = Inr two_heights"
  unfolding two_heights_def by (rule init_constructed[OF curve_two_heights])

lemma interp1d_nan: "interp1d xs ys NaN = NaN"
  by (simp add: interp1d_def)

text \<open>
  C7. For every curve with heights that are numbers and with \<^verbatim>\<open>Smr1()\<close> a number other
  than zero, \<^verbatim>\<open>Spk()\<close> is twice the absolute value of the trapezoidal integral of the
  material ratios and heights before \<open>idx\<close>, divided by \<^verbatim>\<open>Smr1()\<close>, where \<open>idx\<close> is the
  first index that minimises the distance of the height to \<open>y_upper\<close>.
\<close>

theorem Spk_formula:
  assumes "height self \<noteq> []" "list_all is_fin (height self)"
    and "Smr1 self \<noteq> NaN" "Smr1 self \<noteq> Fin 0"
  shows "\<exists>idx. idx < length (height self) \<and>
           (\<forall>j<length (height self).
               fl_le (fl_abs (fl_sub (height self ! idx) (y_upper self)))
                     (fl_abs (fl_sub (height self ! j) (y_upper self)))) \<and>
           (\<forall>j<idx. fl_lt (fl_abs (fl_sub (height self ! idx) (y_upper self)))
                           (fl_abs (fl_sub (height self ! j) (y_upper self)))) \<and>
           Spk self = Inr (fl_div (fl_mul (Fin 2)
                             (fl_abs (trapezoid (take idx (material_ratio self))
                                                (take idx (height self)))))
                             (Smr1 self))"
proof -
  have "y_upper self \<noteq> NaN"
    using assms(3) interp1d_nan by (auto simp: Smr1_def Smr_def)
  from argclosest_first_minimum[OF assms(1,2) this] obtain idx where
    "argclosest (y_upper self) (height self) = Inr idx" "idx < length (height self)"
    "\<forall>j<length (height self).
               fl_le (fl_abs (fl_sub (height self ! idx) (y_upper self)))
                     (fl_abs (fl_sub (height self ! j) (y_upper self)))"
    "\<forall>j<idx. fl_lt (fl_abs (fl_sub (height self ! idx) (y_upper self)))
                           (fl_abs (fl_sub (height self ! j) (y_upper self)))" by blast
  then show ?thesis by (auto simp: Spk_def Let_def)
qed

lemma Smr1_two_heights: "Smr1 two_heights = Fin 100"
  by (simp add: two_heights_def Smr1_def Smr_def interp1d_def sort_pts_def sort_le_def)

lemma Spk_two_heights: "Spk two_heights = Inr (Fin 0)"
  by (simp add: two_heights_def Spk_def argclosest_def Smr1_def Smr_def interp1d_def
      sort_pts_def sort_le_def fl_sub_def)

theorem Spk_formula_witness:
  "init [0, 1] 2 = Inr two_heights \<and>
   height two_heights \<noteq> [] \<and> list_all is_fin (height two_heights) \<and>
   Smr1 two_heights \<noteq> NaN \<and> Smr1 two_heights \<noteq> Fin 0 \<and>
   Spk two_heights = Inr (Fin 0) \<and>
   (\<exists>idx. idx < length (height two_heights) \<and>
      (\<forall>j<length (height two_heights).
          fl_le (fl_abs (fl_sub (height two_heights ! idx) (y_upper two_heights)))
                (fl_abs (fl_sub (height two_heights ! j) (y_upper two_heights)))) \<and>
      (\<forall>j<idx. fl_lt (fl_abs (fl_sub (height two_heights ! idx) (y_upper two_heights)))
                      (fl_abs (fl_sub (height two_heights ! j) (y_upper two_heights)))) \<and>
      Spk two_heights = Inr (fl_div (fl_mul (Fin 2)
                             (fl_abs (trapezoid (take idx (material_ratio two_heights))
                                                (take idx (height two_heights)))))
                             (Smr1 two_heights)))"
proof -
  have a: "height two_heights \<noteq> []" "list_all is_fin (height two_heights)"
    by (simp_all add: two_heights_def)
  have b: "Smr1 two_heights \<noteq> NaN" "Smr1 two_heights \<noteq> Fin 0"
    using Smr1_two_heights by simp_all
  from Spk_formula[OF a b] a b init_two_heights Spk_two_heights show ?thesis
    by (intro conjI) assumption+
qed

section \<open>Interpolation along the curve\<close>

lemma insort_pt_last:
  assumes "\<forall>q\<in>set qs. \<not> sort_le (fst p) (fst q)"
  shows "insort_pt p qs = qs @ [p]"
  using assms by (induction qs) simp_all

lemma sort_pts_descending:
  assumes "sorted_wrt (\<lambda>p q. \<not> sort_le (fst p) (fst q)) ps"
  shows "sort_pts ps = rev ps"
  using assms
proof (induction ps)
  case Nil
  then show ?case by (simp add: sort_pts_def)
next
  case (Cons p ps)
  then have "sort_pts ps = rev ps" and "\<forall>q\<in>set (rev ps). \<not> sort_le (fst p) (fst q)"
    by simp_all
  then show ?case using insort_pt_last[of "rev ps" p] by (simp add: sort_pts_def)
qed

lemma fl_lt_irrefl: "\<not> fl_lt a a"
  by (cases a) simp_all

lemma fl_lt_asym: "fl_lt a b \<Longrightarrow> \<not> fl_lt b a"
  by (cases a; cases b) auto

lemma fl_lt_not_le: "fl_lt a b \<Longrightarrow> \<not> fl_le b a"
  by (cases a; cases b) auto

lemma interp_sorted_knot:
  assumes "sorted_wrt (\<lambda>p q. fl_lt (fst p) (fst q)) ps" "\<forall>p\<in>set ps. is_fin (fst p)"
    and "p \<in> set ps"
  shows "interp_sorted ps (fst p) = snd p"
  using assms
proof (induction ps "fst p" rule: interp_sorted.induct)
  case 1
  then show ?case by simp
next
  case (2 p0)
  then show ?case by simp
next
  case (3 p0 q ps)
  show ?case
  proof (cases "p = p0")
    case True
    have "fl_lt (fst p0) (fst q)" using "3.prems"(1) by simp
    then show ?thesis using True by (simp add: fl_lt_irrefl)
  next
    case False
    then have mem: "p \<in> set (q # ps)" using "3.prems"(3) by simp
    have lt0: "fl_lt (fst p0) (fst p)" using "3.prems"(1) mem by auto
    have a: "\<not> fl_lt (fst p) (fst p0)" using lt0 by (rule fl_lt_asym)
    have b: "\<not> fl_lt (fst p) (fst q)"
    proof (cases "p = q")
      case True
      then show ?thesis by (simp add: fl_lt_irrefl)
    next
      case False
      then have "p \<in> set ps" using mem by simp
      then have "fl_lt (fst q) (fst p)" using "3.prems"(1) by auto
      then show ?thesis by (rule fl_lt_asym)
    qed
    have s: "sorted_wrt (\<lambda>p q. fl_lt (fst p) (fst q)) (q # ps)" "\<forall>p\<in>set (q # ps). is_fin (fst p)"
      using "3.prems"(1,2) by simp_all
    from "3.hyps"[OF a b s mem] show ?thesis using a b by simp
  qed
qed

lemma interp1d_descending_knot:
  fixes es :: "real list"
  assumes "sorted_wrt (\<lambda>a b. b < a) es" "length ys = length es" "i < length es"
  shows "interp1d (map Fin es) ys (Fin (es ! i)) = ys ! i"
proof -
  let ?ps = "zip (map Fin es) ys"
  have len: "length (map Fin es) = length ys" using assms(2) by simp
  have f: "map fst ?ps = map Fin es" using len by (simp add: map_fst_zip)
  have "sorted_wrt (\<lambda>x y. \<not> sort_le x y) (map Fin es)"
    using assms(1) by (simp add: sorted_wrt_map sort_le_def not_le)
  then have "sorted_wrt (\<lambda>x y. \<not> sort_le x y) (map fst ?ps)"
    by (simp only: f)
  then have "sorted_wrt (\<lambda>p q. \<not> sort_le (fst p) (fst q)) ?ps"
    by (simp only: sorted_wrt_map)
  then have srt: "sort_pts ?ps = rev ?ps" by (rule sort_pts_descending)
  have "sorted_wrt (\<lambda>x y. fl_lt y x) (map Fin es)"
    using assms(1) by (simp add: sorted_wrt_map)
  then have "sorted_wrt (\<lambda>x y. fl_lt y x) (map fst ?ps)"
    by (simp only: f)
  then have "sorted_wrt (\<lambda>p q. fl_lt (fst q) (fst p)) ?ps"
    by (simp only: sorted_wrt_map)
  then have asc: "sorted_wrt (\<lambda>p q. fl_lt (fst p) (fst q)) (rev ?ps)"
    by (simp add: sorted_wrt_rev)
  have fin: "\<forall>p\<in>set (rev ?ps). is_fin (fst p)"
    by (auto dest!: set_zip_leftD)
  have mem: "(Fin (es ! i), ys ! i) \<in> set (rev ?ps)"
    using assms(2,3) by (auto simp: set_zip intro!: exI[of _ i])
  from interp_sorted_knot[OF asc fin mem] show ?thesis
    by (simp add: interp1d_def srt)
qed

lemma Smr_at_curve_point:
  assumes "get_material_ratio_curve data n = Inr (h, mr)" "i \<le> n"
  shows "interp1d h mr (h ! i) = mr ! i"
proof -
  from assms(1) have n: "0 < n"
    by (auto simp: get_material_ratio_curve_def histogram_def split: if_splits)
  from curve_shape[OF assms(1)] obtain hist edges where
    H: "histogram data n = Inr (hist, edges)" "h = map Fin (rev edges)" by blast
  have e: "edges = linspace (fst (outer_edges data)) (snd (outer_edges data)) n"
    using H(1) n by (simp add: histogram_def Let_def)
  have "sorted_wrt (<) edges"
    unfolding e by (rule linspace_strict[OF outer_edges_less n])
  then have d: "sorted_wrt (\<lambda>a b. b < a) (rev edges)" by (simp add: sorted_wrt_rev)
  have len: "length mr = length (rev edges)" "i < length (rev edges)"
    using curve_lengths[OF assms(1)] histogram_lengths[OF H(1)] assms(2) by simp_all
  from interp1d_descending_knot[OF d len] show ?thesis
    using len(2) by (simp add: H(2))
qed

lemma curve_extreme_heights:
  assumes "get_material_ratio_curve data n = Inr (h, mr)"
  shows "h ! 0 \<noteq> h ! n"
proof -
  from assms have n: "0 < n"
    by (auto simp: get_material_ratio_curve_def histogram_def split: if_splits)
  have "h ! 0 = Fin (snd (outer_edges data))" "h ! n = Fin (fst (outer_edges data))"
    using curve_height_nth[OF assms, of 0] curve_height_nth[OF assms, of n] n
    by (simp_all add: linspace_first linspace_last)
  then show ?thesis using outer_edges_less[of data] by simp
qed

text \<open>
  C6, amended. For every non-empty height map, \<^verbatim>\<open>Smr\<close> gives back the material ratio of
  every point of the curve: \<open>Smr(height[i]) = material_ratio[i]\<close>. The round trip through
  \<^verbatim>\<open>Smc\<close> does not hold over the observed heights: the material ratio is 100 at the
  highest and at the lowest height, which differ, so \<open>Smc(Smr(y)) = y\<close> fails at one of
  the two.
\<close>

theorem Smr_reproduces_curve_points:
  assumes "data \<noteq> []" "0 < n"
  shows "\<exists>afc. init data n = Inr afc \<and>
           (\<forall>i. i \<le> n \<longrightarrow> Smr afc (height afc ! i) = material_ratio afc ! i) \<and>
           Smr afc (height afc ! 0) = Fin 100 \<and> Smr afc (height afc ! n) = Fin 100 \<and>
           height afc ! 0 \<noteq> height afc ! n \<and>
           \<not> (Smc afc (Smr afc (height afc ! 0)) = height afc ! 0 \<and>
              Smc afc (Smr afc (height afc ! n)) = height afc ! n)"
proof -
  from curve_ok[OF assms(2)] obtain h mr where c: "get_material_ratio_curve data n = Inr (h, mr)"
    by blast
  let ?afc = "\<lparr>nbins = n, height = h, material_ratio = mr, slope = NInf,
           intercept = PInf, y_upper = PInf, y_lower = NaN\<rparr>"
  have k: "\<forall>i. i \<le> n \<longrightarrow> Smr ?afc (h ! i) = mr ! i"
    using Smr_at_curve_point[OF c] by (simp add: Smr_def)
  have a: "Smr ?afc (h ! 0) = Fin 100" using k curve_first_ratio[OF c] by simp
  have b: "Smr ?afc (h ! n) = Fin 100" using k curve_last_ratio[OF c assms(1)] by simp
  have d: "h ! 0 \<noteq> h ! n" by (rule curve_extreme_heights[OF c])
  have "\<not> (Smc ?afc (Smr ?afc (h ! 0)) = h ! 0 \<and> Smc ?afc (Smr ?afc (h ! n)) = h ! n)"
    unfolding a b using d by auto
  then show ?thesis using init_constructed[OF c] k a b d by simp
qed

theorem Smr_reproduces_curve_points_witness:
  "[0, 1] \<noteq> ([] :: real list) \<and> (0::nat) < 2 \<and>
   (\<exists>afc. init [0, 1] 2 = Inr afc \<and>
      (\<forall>i. i \<le> 2 \<longrightarrow> Smr afc (height afc ! i) = material_ratio afc ! i) \<and>
      Smr afc (height afc ! 0) = Fin 100 \<and> Smr afc (height afc ! 2) = Fin 100 \<and>
      height afc ! 0 \<noteq> height afc ! 2 \<and>
      \<not> (Smc afc (Smr afc (height afc ! 0)) = height afc ! 0 \<and>
         Smc afc (Smr afc (height afc ! 2)) = height afc ! 2))"
  using Smr_reproduces_curve_points[of "[0, 1]" 2] by simp

text \<open>
  C6, as the spec has it, fails on the curve of the two heights 0 and 1 in two bins: the
  material ratio is 100 at the highest observed height 1 and at the lowest observed
  height 0, so whatever height \<^verbatim>\<open>Smc\<close> gives for the material ratio 100, the round trip
  \<open>Smc(Smr(y)) = y\<close> fails at \<open>y = 1\<close> or at \<open>y = 0\<close>, and is off by at least half the
  range of the heights there.
\<close>

theorem round_trip_fails_at_an_extreme_height:
  "init [0, 1] 2 = Inr two_heights \<and>
   height two_heights = [Fin 1, Fin (1 / 2), Fin 0] \<and>
   Smr two_heights (Fin 1) = Fin 100 \<and>
   Smr two_heights (Fin 0) = Fin 100 \<and>
   \<not> (Smc two_heights (Smr two_heights (Fin 1)) = Fin 1 \<and>
      Smc two_heights (Smr two_heights (Fin 0)) = Fin 0)"
proof -
  have h: "height two_heights = [Fin 1, Fin (1 / 2), Fin 0]" by (simp add: two_heights_def)
  have a: "Smr two_heights (Fin 1) = Fin 100" and b: "Smr two_heights (Fin 0) = Fin 100"
    by (simp_all add: two_heights_def Smr_def interp1d_def sort_pts_def sort_le_def fl_sub_def)
  have "\<not> (Smc two_heights (Smr two_heights (Fin 1)) = Fin 1 \<and>
      Smc two_heights (Smr two_heights (Fin 0)) = Fin 0)"
    unfolding a b by auto
  then show ?thesis using init_two_heights h a b by simp
qed

section \<open>Division by a boundary value\<close>





















end
